theory Spec2Isabelle
  imports Complex_Main
begin

section \<open>Data model (types.ts)\<close>

datatype BlockType = ODD | EVEN

datatype SizeType = BIG | SMALL

text \<open>
  \<^verbatim>\<open>BlockData\<close>. The field \<^verbatim>\<open>type\<close> is named \<open>btype\<close>. Heights and result digits are
  JavaScript numbers holding integers; they are modelled as \<open>int\<close>.
\<close>

record BlockData =
  height :: int
  hash :: string
  resultValue :: int
  btype :: BlockType
  sizeType :: SizeType
  timestamp :: string

text \<open>
  \<^verbatim>\<open>IntervalRule\<close>. The fields \<^verbatim>\<open>id\<close> and \<^verbatim>\<open>value\<close> are named \<open>rule_id\<close> and
  \<open>rule_value\<close>. Only \<^verbatim>\<open>dragonThreshold\<close> is declared optional.
\<close>

record IntervalRule =
  rule_id :: string
  label :: string
  rule_value :: int
  startBlock :: int
  trendRows :: int
  beadRows :: int
  dragonThreshold :: "int option"

text \<open>The union \<^verbatim>\<open>BlockType | SizeType\<close>: what \<^verbatim>\<open>block[typeKey]\<close> evaluates to.\<close>

datatype CellType = BT BlockType | ST SizeType

text \<open>
  \<^verbatim>\<open>GridCell\<close>: \<^verbatim>\<open>type\<close> is \<open>cell_type\<close> (\<^verbatim>\<open>null\<close> is \<open>None\<close>), the optional
  \<^verbatim>\<open>value\<close> is \<open>cell_value\<close>.
\<close>

record GridCell =
  cell_type :: "CellType option"
  cell_value :: "int option"

datatype TypeKey = Key_type | Key_sizeType

text \<open>\<^verbatim>\<open>block[typeKey]\<close>\<close>

fun keyOf :: "TypeKey \<Rightarrow> BlockData \<Rightarrow> CellType" where
  "keyOf Key_type b = BT (btype b)"
| "keyOf Key_sizeType b = ST (sizeType b)"

section \<open>JavaScript primitives used by the code\<close>

text \<open>
  The remainder operator \<^verbatim>\<open>a % b\<close> on integers: the result has the sign of the dividend;
  a zero divisor gives \<^verbatim>\<open>NaN\<close>, modelled as \<open>None\<close>. The test \<^verbatim>\<open>a % b === 0\<close> is
  \<open>js_rem a b = Some 0\<close> (\<^verbatim>\<open>-0 === 0\<close> holds, and \<^verbatim>\<open>NaN === 0\<close> does not).
\<close>

definition js_rem :: "int \<Rightarrow> int \<Rightarrow> int option" where
  "js_rem a b = (if b = 0 then None else Some (sgn a * (\<bar>a\<bar> mod \<bar>b\<bar>)))"

text \<open>
  \<^verbatim>\<open>Number.isSafeInteger\<close> on an integer: absolute value below \<open>2^53\<close>. JavaScript
  numbers are IEEE doubles. The integers of this range are doubles, and \<^verbatim>\<open>+\<close>, \<^verbatim>\<open>-\<close>
  and \<^verbatim>\<open>*\<close> on them are exact whenever the result is in the range too; outside it the
  result is rounded (\<open>2^53 + 1\<close> evaluates to \<open>2^53\<close>). The model computes sums, differences
  and products in \<open>int\<close>, without rounding, so a computed number of the model is the
  number the code computes when the operands and the result are safe integers.
\<close>

definition safeInteger :: "int \<Rightarrow> bool" where
  "safeInteger x = (\<bar>x\<bar> < 2 ^ 53)"

text \<open>
  \<^verbatim>\<open>x || d\<close> for a numeric \<^verbatim>\<open>x\<close> that may be \<^verbatim>\<open>undefined\<close> (\<open>None\<close>): the falsy values
  are \<^verbatim>\<open>undefined\<close> and \<^verbatim>\<open>0\<close>.
\<close>

definition js_or :: "int option \<Rightarrow> int \<Rightarrow> int" where
  "js_or x d = (case x of None \<Rightarrow> d | Some n \<Rightarrow> if n = 0 then d else n)"

text \<open>
  \<^verbatim>\<open>Array.prototype.sort\<close> is stable, so with a comparator that subtracts a numeric key the
  result is the stable sort by that key: \<^verbatim>\<open>(a, b) => a.height - b.height\<close> sorts ascending,
  \<^verbatim>\<open>(a, b) => b.height - a.height\<close> descending.
\<close>

definition sortAscHeight :: "BlockData list \<Rightarrow> BlockData list" where
  "sortAscHeight xs = sort_key height xs"

definition sortDescHeight :: "BlockData list \<Rightarrow> BlockData list" where
  "sortDescHeight xs = sort_key (\<lambda>b. - height b) xs"

datatype error = TypeError

section \<open>Dragon list (the memoised computation of the DragonList component)\<close>

datatype DragonType = Parity | Size

text \<open>
  The four display labels of \<^verbatim>\<open>DragonInfo.value\<close> are single CJK characters in the
  source: \<open>Dan\<close> is U+5355 (odd), \<open>Shuang\<close> U+53CC (even), \<open>Da\<close> U+5927 (big),
  \<open>Xiao\<close> U+5C0F (small).
\<close>

datatype DisplayValue = Dan | Shuang | Da | Xiao

text \<open>\<^verbatim>\<open>DragonInfo\<close>: \<^verbatim>\<open>type\<close> is \<open>dtype\<close>, \<^verbatim>\<open>value\<close> is \<open>dvalue\<close>.\<close>

record DragonInfo =
  ruleName :: string
  dtype :: DragonType
  dvalue :: DisplayValue
  count :: nat
  color :: string
  threshold :: int
  nextHeight :: int
  rowId :: "nat option"

text \<open>The closure \<^verbatim>\<open>checkAlignment\<close> of one rule.\<close>

definition checkAlignment :: "IntervalRule \<Rightarrow> int \<Rightarrow> bool" where
  "checkAlignment rule h =
     (if rule_value rule \<le> 1 then True
      else if startBlock rule > 0 then
        (h \<ge> startBlock rule \<and> js_rem (h - startBlock rule) (rule_value rule) = Some 0)
      else js_rem h (rule_value rule) = Some 0)"

text \<open>\<^verbatim>\<open>allBlocks.filter(b => checkAlignment(b.height)).sort((a, b) => b.height - a.height)\<close>\<close>

definition filtered :: "IntervalRule \<Rightarrow> BlockData list \<Rightarrow> BlockData list" where
  "filtered rule allBlocks =
     sortDescHeight (filter (\<lambda>b. checkAlignment rule (height b)) allBlocks)"

text \<open>
  The \<^verbatim>\<open>for (const b of ...)\<close> loop of both streak closures: count while the key matches,
  \<^verbatim>\<open>break\<close> at the first mismatch.
\<close>

fun streakLoop :: "TypeKey \<Rightarrow> CellType \<Rightarrow> BlockData list \<Rightarrow> nat \<Rightarrow> nat" where
  "streakLoop key firstVal [] cnt = cnt"
| "streakLoop key firstVal (b # bs) cnt =
     (if keyOf key b = firstVal then streakLoop key firstVal bs (cnt + 1) else cnt)"

text \<open>
  \<^verbatim>\<open>calculateStreak\<close> over the list it closes over. Reading \<^verbatim>\<open>filtered[0][key]\<close> of an
  empty list throws a TypeError. The result is the pair \<^verbatim>\<open>{ value, count }\<close>.
\<close>

definition calculateStreak :: "BlockData list \<Rightarrow> TypeKey \<Rightarrow> error + (CellType \<times> nat)" where
  "calculateStreak flt key =
     (case flt of
        [] \<Rightarrow> Inl TypeError
      | b0 # _ \<Rightarrow> (let firstVal = keyOf key b0 in Inr (firstVal, streakLoop key firstVal flt 0)))"

text \<open>\<^verbatim>\<open>calcRowStreak\<close>, the same code over \<^verbatim>\<open>rowLatest\<close>.\<close>

definition calcRowStreak :: "BlockData list \<Rightarrow> TypeKey \<Rightarrow> error + (CellType \<times> nat)" where
  "calcRowStreak rowLatest key =
     (case rowLatest of
        [] \<Rightarrow> Inl TypeError
      | b0 # _ \<Rightarrow>
          (let firstVal = keyOf key b0 in Inr (firstVal, streakLoop key firstVal rowLatest 0)))"

text \<open>The two object literals pushed for a parity streak and for a size streak.\<close>

definition parityInfo ::
  "IntervalRule \<Rightarrow> int \<Rightarrow> int \<Rightarrow> nat option \<Rightarrow> CellType \<times> nat \<Rightarrow> DragonInfo" where
  "parityInfo rule thr nh rid streak =
     \<lparr>ruleName = label rule, dtype = Parity,
      dvalue = (if fst streak = BT ODD then Dan else Shuang),
      count = snd streak,
      color = (if fst streak = BT ODD then ''var(--color-odd)'' else ''var(--color-even)''),
      threshold = thr, nextHeight = nh, rowId = rid\<rparr>"

definition sizeInfo ::
  "IntervalRule \<Rightarrow> int \<Rightarrow> int \<Rightarrow> nat option \<Rightarrow> CellType \<times> nat \<Rightarrow> DragonInfo" where
  "sizeInfo rule thr nh rid streak =
     \<lparr>ruleName = label rule, dtype = Size,
      dvalue = (if fst streak = ST BIG then Da else Xiao),
      count = snd streak,
      color = (if fst streak = ST BIG then ''var(--color-big)'' else ''var(--color-small)''),
      threshold = thr, nextHeight = nh, rowId = rid\<rparr>"

text \<open>The two guarded pushes, onto \<^verbatim>\<open>trendResults\<close> or \<^verbatim>\<open>beadResults\<close>.\<close>

definition pushStreaks ::
  "IntervalRule \<Rightarrow> int \<Rightarrow> int \<Rightarrow> nat option \<Rightarrow> CellType \<times> nat \<Rightarrow> CellType \<times> nat \<Rightarrow>
   DragonInfo list \<Rightarrow> DragonInfo list" where
  "pushStreaks rule thr nh rid pStreak sStreak results =
     (let results1 = (if int (snd pStreak) \<ge> thr
                      then results @ [parityInfo rule thr nh rid pStreak] else results)
      in if int (snd sStreak) \<ge> thr
         then results1 @ [sizeInfo rule thr nh rid sStreak] else results1)"

text \<open>
  \<^verbatim>\<open>for (let i = r; i < total; i += rows) rowItems.push(chrono[i])\<close>. With \<^verbatim>\<open>rows\<close> zero
  the loop would not end: the result \<open>None\<close> stands for not returning.
\<close>

partial_function (option) rowItemsLoop ::
  "BlockData list \<Rightarrow> nat \<Rightarrow> nat \<Rightarrow> BlockData list \<Rightarrow> BlockData list option" where
  "rowItemsLoop chrono rows i rowItems =
     (if i < length chrono
      then rowItemsLoop chrono rows (i + rows) (rowItems @ [chrono ! i])
      else Some rowItems)"

declare rowItemsLoop.simps [code]

text \<open>
  The body of the loop over \<^verbatim>\<open>r\<close>: collect the row, \<^verbatim>\<open>continue\<close> when it is empty,
  reverse it, compute both streaks and push. The sum and the product of \<open>rowNextHeight\<close>
  are those of \<open>int\<close>: they are the code's in the safe-integer range only.
\<close>

definition rowBody ::
  "IntervalRule \<Rightarrow> int \<Rightarrow> BlockData list \<Rightarrow> nat \<Rightarrow> nat \<Rightarrow> DragonInfo list \<Rightarrow>
   (error + DragonInfo list) option" where
  "rowBody rule thr chrono rows r beadResults =
     (case rowItemsLoop chrono rows r [] of
        None \<Rightarrow> None
      | Some rowItems \<Rightarrow>
          if length rowItems = 0 then Some (Inr beadResults)
          else
            (let rowLatest = rev rowItems in
             case calcRowStreak rowLatest Key_type of
               Inl e \<Rightarrow> Some (Inl e)
             | Inr rpStreak \<Rightarrow>
                 (case calcRowStreak rowLatest Key_sizeType of
                    Inl e \<Rightarrow> Some (Inl e)
                  | Inr rsStreak \<Rightarrow>
                      (let rowNextHeight = height (rowLatest ! 0) + rule_value rule * int rows
                       in Some (Inr (pushStreaks rule thr rowNextHeight (Some (r + 1))
                                      rpStreak rsStreak beadResults))))))"

text \<open>\<^verbatim>\<open>for (let r = 0; r < rows; r++)\<close>, with \<^verbatim>\<open>rows\<close> an integer that may be negative.\<close>

function rowsLoop ::
  "IntervalRule \<Rightarrow> int \<Rightarrow> BlockData list \<Rightarrow> int \<Rightarrow> nat \<Rightarrow> DragonInfo list \<Rightarrow>
   (error + DragonInfo list) option" where
  "rowsLoop rule thr chrono rows r beadResults =
     (if int r < rows then
        (case rowBody rule thr chrono (nat rows) r beadResults of
           None \<Rightarrow> None
         | Some (Inl e) \<Rightarrow> Some (Inl e)
         | Some (Inr beadResults') \<Rightarrow> rowsLoop rule thr chrono rows (r + 1) beadResults')
      else Some (Inr beadResults))"
  by pat_completeness auto
termination
  by (relation "measure (\<lambda>(rule, thr, chrono, rows, r, res). nat (rows - int r))") auto

declare rowsLoop.simps [simp del]

text \<open>
  The callback of \<^verbatim>\<open>rules.forEach\<close>, on the pair of result lists
  \<^verbatim>\<open>(trendResults, beadResults)\<close> it pushes onto. The sum \<open>nh\<close> (\<^verbatim>\<open>nextHeight\<close>) is that
  of \<open>int\<close>: it is the code's in the safe-integer range only.
\<close>

definition processRule ::
  "BlockData list \<Rightarrow> IntervalRule \<Rightarrow> DragonInfo list \<times> DragonInfo list \<Rightarrow>
   (error + DragonInfo list \<times> DragonInfo list) option" where
  "processRule allBlocks rule st =
     (let flt = filtered rule allBlocks in
      if length flt = 0 then Some (Inr st)
      else
        (let thr = js_or (dragonThreshold rule) 3;
             latestHeight = height (flt ! 0);
             nh = latestHeight + rule_value rule
         in case calculateStreak flt Key_type of
              Inl e \<Rightarrow> Some (Inl e)
            | Inr pStreak \<Rightarrow>
                (case calculateStreak flt Key_sizeType of
                   Inl e \<Rightarrow> Some (Inl e)
                 | Inr sStreak \<Rightarrow>
                     (let trendResults = pushStreaks rule thr nh None pStreak sStreak (fst st);
                          rows = js_or (Some (beadRows rule)) 6;
                          chrono = sortAscHeight flt
                      in case rowsLoop rule thr chrono rows 0 (snd st) of
                           None \<Rightarrow> None
                         | Some (Inl e) \<Rightarrow> Some (Inl e)
                         | Some (Inr beadResults) \<Rightarrow> Some (Inr (trendResults, beadResults))))))"

text \<open>\<^verbatim>\<open>rules.forEach(rule => ...)\<close>\<close>

fun rulesForEach ::
  "BlockData list \<Rightarrow> IntervalRule list \<Rightarrow> DragonInfo list \<times> DragonInfo list \<Rightarrow>
   (error + DragonInfo list \<times> DragonInfo list) option" where
  "rulesForEach allBlocks [] st = Some (Inr st)"
| "rulesForEach allBlocks (rule # rules) st =
     (case processRule allBlocks rule st of
        None \<Rightarrow> None
      | Some (Inl e) \<Rightarrow> Some (Inl e)
      | Some (Inr st') \<Rightarrow> rulesForEach allBlocks rules st')"

text \<open>\<^verbatim>\<open>results.sort((a, b) => b.count - a.count)\<close>\<close>

definition sortDescCount :: "DragonInfo list \<Rightarrow> DragonInfo list" where
  "sortDescCount ds = sort_key (\<lambda>d. - int (count d)) ds"

text \<open>
  The \<^verbatim>\<open>useMemo\<close> callback of \<^verbatim>\<open>DragonList\<close>, returning
  \<^verbatim>\<open>(trendDragons, beadRowDragons)\<close>.
\<close>

definition dragonList ::
  "BlockData list \<Rightarrow> IntervalRule list \<Rightarrow>
   (error + DragonInfo list \<times> DragonInfo list) option" where
  "dragonList allBlocks rules =
     (if length allBlocks = 0 then Some (Inr ([], []))
      else
        (case rulesForEach allBlocks rules ([], []) of
           None \<Rightarrow> None
         | Some (Inl e) \<Rightarrow> Some (Inl e)
         | Some (Inr (trendResults, beadResults)) \<Rightarrow>
             Some (Inr (sortDescCount trendResults, sortDescCount beadResults))))"

section \<open>Grid builders (utils/helpers.ts)\<close>

text \<open>The literal \<^verbatim>\<open>{ type: null }\<close>.\<close>

definition emptyCell :: GridCell where
  "emptyCell = \<lparr>cell_type = None, cell_value = None\<rparr>"

text \<open>The literal \<^verbatim>\<open>{ type: block[typeKey], value: block.resultValue }\<close>.\<close>

definition blockCell :: "TypeKey \<Rightarrow> BlockData \<Rightarrow> GridCell" where
  "blockCell typeKey block =
     \<lparr>cell_type = Some (keyOf typeKey block), cell_value = Some (resultValue block)\<rparr>"

text \<open>\<^verbatim>\<open>Array(rows).fill({ type: null })\<close>, for a row count that is a natural number.\<close>

definition emptyColumn :: "nat \<Rightarrow> GridCell list" where
  "emptyColumn rows = replicate rows emptyCell"

subsection \<open>calculateTrendGrid\<close>

text \<open>\<^verbatim>\<open>while (currentColumn.length < rows) currentColumn.push({ type: null })\<close>\<close>

function padColumn :: "nat \<Rightarrow> GridCell list \<Rightarrow> GridCell list" where
  "padColumn rows currentColumn =
     (if length currentColumn < rows then padColumn rows (currentColumn @ [emptyCell])
      else currentColumn)"
  by pat_completeness auto
termination
  by (relation "measure (\<lambda>(rows, col). rows - length col)") auto

declare padColumn.simps [simp del]

text \<open>The variables the \<^verbatim>\<open>forEach\<close> callback of \<^verbatim>\<open>calculateTrendGrid\<close> mutates.\<close>

record TrendState =
  columns :: "GridCell list list"
  currentColumn :: "GridCell list"
  lastVal :: "CellType option"

text \<open>
  \<^verbatim>\<open>if (currentColumn.length > 0) { pad; columns.push(currentColumn) }\<close>, which occurs in
  the callback and once more after the walk.
\<close>

definition closeColumn :: "nat \<Rightarrow> GridCell list list \<Rightarrow> GridCell list \<Rightarrow> GridCell list list" where
  "closeColumn rows cols cur =
     (if length cur > 0 then cols @ [padColumn rows cur] else cols)"

text \<open>The callback of \<^verbatim>\<open>chronological.forEach\<close>.\<close>

definition trendStep :: "TypeKey \<Rightarrow> nat \<Rightarrow> TrendState \<Rightarrow> BlockData \<Rightarrow> TrendState" where
  "trendStep typeKey rows s block =
     (let currentVal = keyOf typeKey block;
          s1 = (if Some currentVal \<noteq> lastVal s \<or> length (currentColumn s) \<ge> rows
                then \<lparr>columns = closeColumn rows (columns s) (currentColumn s),
                      currentColumn = [], lastVal = Some currentVal\<rparr>
                else s)
      in s1\<lparr>currentColumn := currentColumn s1 @ [blockCell typeKey block]\<rparr>)"

fun trendForEach :: "TypeKey \<Rightarrow> nat \<Rightarrow> BlockData list \<Rightarrow> TrendState \<Rightarrow> TrendState" where
  "trendForEach typeKey rows [] s = s"
| "trendForEach typeKey rows (block # blocks) s =
     trendForEach typeKey rows blocks (trendStep typeKey rows s block)"

text \<open>\<^verbatim>\<open>while (columns.length < minCols) columns.push(Array(rows).fill({ type: null }))\<close>\<close>

function padGrid :: "nat \<Rightarrow> nat \<Rightarrow> GridCell list list \<Rightarrow> GridCell list list" where
  "padGrid minCols rows cols =
     (if length cols < minCols then padGrid minCols rows (cols @ [emptyColumn rows])
      else cols)"
  by pat_completeness auto
termination
  by (relation "measure (\<lambda>(minCols, rows, cols). minCols - length cols)") auto

declare padGrid.simps [simp del]

definition calculateTrendGrid :: "BlockData list \<Rightarrow> TypeKey \<Rightarrow> nat \<Rightarrow> GridCell list list" where
  "calculateTrendGrid blocks typeKey rows =
     (if length blocks = 0 then replicate 24 (emptyColumn rows)
      else
        (let chronological = sortAscHeight blocks;
             s = trendForEach typeKey rows chronological
                   \<lparr>columns = [], currentColumn = [], lastVal = None\<rparr>;
             cols = closeColumn rows (columns s) (currentColumn s);
             minCols = 24
         in padGrid minCols rows cols))"

subsection \<open>calculateBeadGrid\<close>










section \<open>Sample inputs\<close>

text \<open>
  A block with the classification \<^verbatim>\<open>transformTronBlock\<close> derives from the result digit:
  \<^verbatim>\<open>EVEN\<close> iff the digit is even, \<^verbatim>\<open>BIG\<close> iff it is at least 5.
\<close>

definition mkBlock :: "int \<Rightarrow> int \<Rightarrow> BlockData" where
  "mkBlock h v =
     \<lparr>height = h, hash = [], resultValue = v,
      btype = (if v mod 2 = 0 then EVEN else ODD),
      sizeType = (if v \<ge> 5 then BIG else SMALL), timestamp = []\<rparr>"

text \<open>Seven blocks at heights 1 to 7, out of order, with parities O, O, O, E, E, O, O.\<close>

definition sampleBlocks :: "BlockData list" where
  "sampleBlocks =
     [mkBlock 3 7, mkBlock 1 1, mkBlock 2 3, mkBlock 4 2, mkBlock 7 5, mkBlock 5 8, mkBlock 6 9]"

definition sampleRule :: IntervalRule where
  "sampleRule =
     \<lparr>rule_id = ''r1'', label = ''1'', rule_value = 1, startBlock = 0,
      trendRows = 6, beadRows = 2, dragonThreshold = Some 2\<rparr>"

section \<open>Closed forms used in the proofs\<close>

text \<open>
  The round-robin partition in the words of the specification: row \<open>r\<close> holds the elements
  at the positions \<open>i\<close> with \<open>i mod rows = r\<close>, in order.
\<close>

definition spec_row :: "'a list \<Rightarrow> nat \<Rightarrow> nat \<Rightarrow> 'a list" where
  "spec_row chrono rows r = map ((!) chrono) (filter (\<lambda>i. i mod rows = r) [0..<length chrono])"

text \<open>The leading run of a non-empty list: the key of its head, and how far that key repeats.\<close>

definition streakOf :: "TypeKey \<Rightarrow> BlockData list \<Rightarrow> CellType \<times> nat" where
  "streakOf key xs =
     (keyOf key (hd xs), length (takeWhile (\<lambda>b. keyOf key b = keyOf key (hd xs)) xs))"

text \<open>What one row, one rule's trend part and one rule's rows push.\<close>

definition rowEntries ::
  "IntervalRule \<Rightarrow> int \<Rightarrow> BlockData list \<Rightarrow> nat \<Rightarrow> nat \<Rightarrow> DragonInfo list" where
  "rowEntries rule thr chrono rows r =
     (if spec_row chrono rows r = [] then []
      else pushStreaks rule thr
             (height (last (spec_row chrono rows r)) + rule_value rule * int rows) (Some (r + 1))
             (streakOf Key_type (rev (spec_row chrono rows r)))
             (streakOf Key_sizeType (rev (spec_row chrono rows r))) [])"

definition trendEntries :: "IntervalRule \<Rightarrow> BlockData list \<Rightarrow> DragonInfo list" where
  "trendEntries rule allBlocks =
     (if filtered rule allBlocks = [] then []
      else pushStreaks rule (js_or (dragonThreshold rule) 3)
             (height (hd (filtered rule allBlocks)) + rule_value rule) None
             (streakOf Key_type (filtered rule allBlocks))
             (streakOf Key_sizeType (filtered rule allBlocks)) [])"

definition beadEntries :: "IntervalRule \<Rightarrow> BlockData list \<Rightarrow> DragonInfo list" where
  "beadEntries rule allBlocks =
     (if filtered rule allBlocks = [] then []
      else concat (map (rowEntries rule (js_or (dragonThreshold rule) 3)
                          (sortAscHeight (filtered rule allBlocks))
                          (nat (js_or (Some (beadRows rule)) 6)))
                       [0..<nat (js_or (Some (beadRows rule)) 6)]))"


text \<open>A column padded with empty cells up to the row count: what \<open>padColumn\<close> computes.\<close>

definition padded :: "nat \<Rightarrow> GridCell list \<Rightarrow> GridCell list" where
  "padded rows g = g @ replicate (rows - length g) emptyCell"

text \<open>The populated cells of a column: those whose \<^verbatim>\<open>type\<close> is not \<^verbatim>\<open>null\<close>.\<close>

definition populated :: "GridCell list \<Rightarrow> GridCell list" where
  "populated col = filter (\<lambda>c. cell_type c \<noteq> None) col"

text \<open>
  The condition under which the trend walk closes column \<open>g\<close> and opens \<open>h\<close>: the value
  changes, or \<open>g\<close> is full.
\<close>

definition col_break :: "nat \<Rightarrow> GridCell list \<Rightarrow> GridCell list \<Rightarrow> bool" where
  "col_break rows g h = (cell_type (hd h) \<noteq> cell_type (last g) \<or> length g = rows)"

text \<open>A run of populated cells of one value that fits a column.\<close>

definition group_ok :: "nat \<Rightarrow> GridCell list \<Rightarrow> bool" where
  "group_ok rows g =
     (g \<noteq> [] \<and> length g \<le> rows \<and>
      (\<forall>x\<in>set g. cell_type x \<noteq> None \<and> cell_type x = cell_type (hd g)))"

text \<open>
  The invariant of the trend walk after the outcomes \<open>xs\<close>: the closed columns are padded
  runs, the runs and the open column together are the cells of \<open>xs\<close>, and consecutive
  runs are separated by a break.
\<close>

definition trend_inv :: "TypeKey \<Rightarrow> nat \<Rightarrow> BlockData list \<Rightarrow> TrendState \<Rightarrow> bool" where
  "trend_inv key rows xs s =
     ((currentColumn s = [] \<longrightarrow> xs = [] \<and> columns s = [] \<and> lastVal s = None) \<and>
      (currentColumn s \<noteq> [] \<longrightarrow>
         lastVal s = cell_type (hd (currentColumn s)) \<and> group_ok rows (currentColumn s)) \<and>
      (\<exists>groups. columns s = map (padded rows) groups \<and>
         concat groups @ currentColumn s = map (blockCell key) xs \<and>
         (\<forall>g\<in>set groups. group_ok rows g) \<and>
         successively (col_break rows) (groups @ [currentColumn s])))"

section \<open>The loops of the dragon computation in closed form\<close>

lemma streakLoop_eq:
  "streakLoop key v xs c = c + length (takeWhile (\<lambda>b. keyOf key b = v) xs)"
  by (induction xs arbitrary: c) auto

lemma filter_upt_skip:
  assumes "\<And>j. i \<le> j \<Longrightarrow> j < k \<Longrightarrow> \<not> P j" "i \<le> k"
  shows "filter P [i..<n] = filter P [k..<n]"
proof (cases "k \<le> n")
  case True
  then have "[i..<n] = [i..<k] @ [k..<n]" using assms(2)
    by (metis le_Suc_ex upt_add_eq_append)
  moreover have "filter P [i..<k] = []" using assms(1) by (auto simp: filter_empty_conv)
  ultimately show ?thesis by simp
next
  case False
  then have "filter P [i..<n] = []" using assms(1) by (auto simp: filter_empty_conv)
  moreover have "filter P [k..<n] = []" using False by simp
  ultimately show ?thesis by simp
qed

lemma rowItemsLoop_gen:
  assumes "0 < rows" "r < rows"
  shows "i mod rows = r \<Longrightarrow>
    rowItemsLoop chrono rows i acc =
      Some (acc @ map ((!) chrono) (filter (\<lambda>j. j mod rows = r) [i..<length chrono]))"
proof (induction "length chrono - i" arbitrary: i acc rule: less_induct)
  case less
  show ?case
  proof (cases "i < length chrono")
    case False
    then show ?thesis by (subst rowItemsLoop.simps) simp
  next
    case True
    have m: "(i + rows) mod rows = r" using less.prems by simp
    have skip: "filter (\<lambda>j. j mod rows = r) [Suc i..<length chrono]
              = filter (\<lambda>j. j mod rows = r) [i + rows..<length chrono]"
    proof (rule filter_upt_skip)
      fix j assume a: "Suc i \<le> j" "j < i + rows"
      show "j mod rows \<noteq> r"
      proof
        assume "j mod rows = r"
        then have "j mod rows = i mod rows" using less.prems by simp
        then have "rows dvd (j - i)" using a(1)
          by (metis Suc_leD mod_eq_dvd_iff_nat)
        then have "rows \<le> j - i" using a(1) by (auto intro!: dvd_imp_le)
        then show False using a by simp
      qed
    next
      show "Suc i \<le> i + rows" using assms(1) by simp
    qed
    have IH: "rowItemsLoop chrono rows (i + rows) (acc @ [chrono ! i]) =
      Some ((acc @ [chrono ! i]) @ map ((!) chrono) (filter (\<lambda>j. j mod rows = r) [i + rows..<length chrono]))"
      using less.hyps[of "i + rows" "acc @ [chrono ! i]"] True assms(1) m by simp
    have "[i..<length chrono] = i # [Suc i..<length chrono]" using True by (simp add: upt_conv_Cons)
    then show ?thesis
      using True IH skip less.prems by (subst rowItemsLoop.simps) simp
  qed
qed

lemma rowItemsLoop_spec_row:
  "r < rows \<Longrightarrow> rowItemsLoop chrono rows r [] = Some (spec_row chrono rows r)"
proof -
  assume a: "r < rows"
  have "filter (\<lambda>j. j mod rows = r) [0..<length chrono]
      = filter (\<lambda>j. j mod rows = r) [r..<length chrono]"
    by (rule filter_upt_skip) (use a in auto)
  then show ?thesis
    using rowItemsLoop_gen[of rows r r chrono "[]"] a by (simp add: spec_row_def)
qed

lemma calculateStreak_eq:
  "xs \<noteq> [] \<Longrightarrow> calculateStreak xs key = Inr (streakOf key xs)"
  by (cases xs) (simp_all add: calculateStreak_def streakOf_def streakLoop_eq Let_def)

lemma calcRowStreak_eq:
  "xs \<noteq> [] \<Longrightarrow> calcRowStreak xs key = Inr (streakOf key xs)"
  by (cases xs) (simp_all add: calcRowStreak_def streakOf_def streakLoop_eq Let_def)

lemma pushStreaks_append:
  "pushStreaks rule thr nh rid p s res = res @ pushStreaks rule thr nh rid p s []"
  by (simp add: pushStreaks_def Let_def)

lemma rowBody_eq:
  assumes "r < rows"
  shows "rowBody rule thr chrono rows r res = Some (Inr (res @ rowEntries rule thr chrono rows r))"
proof (cases "spec_row chrono rows r = []")
  case True
  then show ?thesis using assms by (simp add: rowBody_def rowItemsLoop_spec_row rowEntries_def)
next
  case False
  then have ne: "rev (spec_row chrono rows r) \<noteq> []" by simp
  have h: "rev (spec_row chrono rows r) ! 0 = last (spec_row chrono rows r)"
    using False by (simp add: hd_conv_nth[symmetric] hd_rev)
  show ?thesis
    using assms False h pushStreaks_append[of rule thr _ _ _ _ res]
    by (simp add: rowBody_def rowItemsLoop_spec_row rowEntries_def
        calcRowStreak_eq[OF ne] Let_def)
qed

lemma rowsLoop_eq:
  "rowsLoop rule thr chrono rows r res =
     Some (Inr (res @ concat (map (rowEntries rule thr chrono (nat rows)) [r..<nat rows])))"
proof (induction rule thr chrono rows r res rule: rowsLoop.induct)
  case (1 rule thr chrono rows r res)
  show ?case
  proof (cases "int r < rows")
    case False
    then show ?thesis by (subst rowsLoop.simps) simp
  next
    case True
    then have lt: "r < nat rows" by simp
    have u: "[r..<nat rows] = r # [r + 1..<nat rows]" using lt by (simp add: upt_conv_Cons)
    show ?thesis
      using True "1.IH"[OF True rowBody_eq[OF lt] refl] u
      by (subst rowsLoop.simps) (simp add: rowBody_eq[OF lt])
  qed
qed

lemma processRule_eq:
  "processRule allBlocks rule (t, b) =
     Some (Inr (t @ trendEntries rule allBlocks, b @ beadEntries rule allBlocks))"
proof (cases "filtered rule allBlocks = []")
  case True
  then show ?thesis by (simp add: processRule_def trendEntries_def beadEntries_def)
next
  case False
  have h: "filtered rule allBlocks ! 0 = hd (filtered rule allBlocks)"
    using False by (simp add: hd_conv_nth)
  show ?thesis
    using False h pushStreaks_append[of rule _ _ None _ _ t]
    by (simp add: processRule_def trendEntries_def beadEntries_def Let_def
        calculateStreak_eq[OF False] rowsLoop_eq)
qed

lemma rulesForEach_eq:
  "rulesForEach allBlocks rules (t, b) =
     Some (Inr (t @ concat (map (\<lambda>rule. trendEntries rule allBlocks) rules),
                b @ concat (map (\<lambda>rule. beadEntries rule allBlocks) rules)))"
  by (induction rules arbitrary: t b) (simp_all add: processRule_eq)

lemma streakOf_props:
  assumes "xs \<noteq> []"
  shows "1 \<le> snd (streakOf key xs)" "snd (streakOf key xs) \<le> length xs"
    "\<forall>i<snd (streakOf key xs). keyOf key (xs ! i) = keyOf key (xs ! 0)"
    "snd (streakOf key xs) < length xs \<longrightarrow> keyOf key (xs ! snd (streakOf key xs)) \<noteq> keyOf key (xs ! 0)"
    "fst (streakOf key xs) = keyOf key (xs ! 0)"
proof -
  obtain a ys where xs: "xs = a # ys" using assms by (cases xs) auto
  let ?P = "\<lambda>b. keyOf key b = keyOf key (hd xs)"
  have hd0: "hd xs = xs ! 0" using assms by (simp add: hd_conv_nth)
  show "1 \<le> snd (streakOf key xs)" by (simp add: streakOf_def xs)
  show "snd (streakOf key xs) \<le> length xs" by (simp add: streakOf_def length_takeWhile_le)
  show "\<forall>i<snd (streakOf key xs). keyOf key (xs ! i) = keyOf key (xs ! 0)"
  proof (intro allI impI)
    fix i assume "i < snd (streakOf key xs)"
    then have i: "i < length (takeWhile ?P xs)" by (simp add: streakOf_def)
    have "takeWhile ?P xs ! i \<in> set (takeWhile ?P xs)" using i by (rule nth_mem)
    then have "?P (takeWhile ?P xs ! i)" by (rule set_takeWhileD[THEN conjunct2])
    then show "keyOf key (xs ! i) = keyOf key (xs ! 0)"
      using i hd0 by (simp add: takeWhile_nth)
  qed
  show "snd (streakOf key xs) < length xs \<longrightarrow> keyOf key (xs ! snd (streakOf key xs)) \<noteq> keyOf key (xs ! 0)"
    using nth_length_takeWhile[of ?P xs] hd0 by (simp add: streakOf_def)
  show "fst (streakOf key xs) = keyOf key (xs ! 0)" using hd0 by (simp add: streakOf_def)
qed



section \<open>Streak detector\<close>

text \<open>
  Claim C3. For every non-empty ordered outcome sequence and either classification axis, both
  leading-run detectors (\<^verbatim>\<open>calculateStreak\<close> and \<^verbatim>\<open>calcRowStreak\<close>) return the
  classification value of the first element together with a count between 1 and the length
  of the sequence, such that each of the first \<open>count\<close> elements carries that value and the
  element at index \<open>count\<close>, if there is one, carries a different value.
\<close>

theorem leading_run_streak:
  assumes "xs \<noteq> []"
  shows "\<exists>c. calculateStreak xs key = Inr (keyOf key (xs ! 0), c) \<and>
             calcRowStreak xs key = Inr (keyOf key (xs ! 0), c) \<and>
             1 \<le> c \<and> c \<le> length xs \<and>
             (\<forall>i<c. keyOf key (xs ! i) = keyOf key (xs ! 0)) \<and>
             (c < length xs \<longrightarrow> keyOf key (xs ! c) \<noteq> keyOf key (xs ! 0))"
proof -
  have c1: "calculateStreak xs key = Inr (keyOf key (xs ! 0), snd (streakOf key xs))"
    using streakOf_props(5)[OF assms, of key]
    by (simp add: calculateStreak_eq[OF assms] prod_eq_iff)
  have c2: "calcRowStreak xs key = Inr (keyOf key (xs ! 0), snd (streakOf key xs))"
    using streakOf_props(5)[OF assms, of key]
    by (simp add: calcRowStreak_eq[OF assms] prod_eq_iff)
  show ?thesis
    using c1 c2 streakOf_props(1-4)[OF assms, of key] by blast
qed

theorem leading_run_streak_witness:
  "[mkBlock 7 5, mkBlock 6 9, mkBlock 5 8] \<noteq> [] \<and>
   (\<exists>c. calculateStreak [mkBlock 7 5, mkBlock 6 9, mkBlock 5 8] Key_type =
          Inr (keyOf Key_type ([mkBlock 7 5, mkBlock 6 9, mkBlock 5 8] ! 0), c) \<and>
        calcRowStreak [mkBlock 7 5, mkBlock 6 9, mkBlock 5 8] Key_type =
          Inr (keyOf Key_type ([mkBlock 7 5, mkBlock 6 9, mkBlock 5 8] ! 0), c) \<and>
        1 \<le> c \<and> c \<le> length [mkBlock 7 5, mkBlock 6 9, mkBlock 5 8] \<and>
        (\<forall>i<c. keyOf Key_type ([mkBlock 7 5, mkBlock 6 9, mkBlock 5 8] ! i) =
                keyOf Key_type ([mkBlock 7 5, mkBlock 6 9, mkBlock 5 8] ! 0)) \<and>
        (c < length [mkBlock 7 5, mkBlock 6 9, mkBlock 5 8] \<longrightarrow>
           keyOf Key_type ([mkBlock 7 5, mkBlock 6 9, mkBlock 5 8] ! c) \<noteq>
           keyOf Key_type ([mkBlock 7 5, mkBlock 6 9, mkBlock 5 8] ! 0)))"
proof -
  have h: "[mkBlock 7 5, mkBlock 6 9, mkBlock 5 8] \<noteq> []" by simp
  show ?thesis
    using h leading_run_streak [OF h, of Key_type] by (rule conjI)
qed

section \<open>Rule-aligned sampler\<close>



section \<open>Entries pushed by one rule\<close>

lemma set_pushStreaks:
  "set (pushStreaks rule thr nh rid p s []) =
     (if int (snd p) \<ge> thr then {parityInfo rule thr nh rid p} else {}) \<union>
     (if int (snd s) \<ge> thr then {sizeInfo rule thr nh rid s} else {})"
  by (simp add: pushStreaks_def Let_def)

lemma pushStreaks_fields:
  assumes "d \<in> set (pushStreaks rule thr nh rid p s [])"
  shows "rowId d = rid" "nextHeight d = nh" "threshold d = thr" "int (count d) \<ge> thr"
    "dtype d = Parity \<longrightarrow> count d = snd p" "dtype d = Size \<longrightarrow> count d = snd s"
  using assms
  by (auto simp: set_pushStreaks parityInfo_def sizeInfo_def split: if_splits)

lemma pushStreaks_has_parity:
  "(\<exists>d\<in>set (pushStreaks rule thr nh rid p s []). dtype d = Parity) \<longleftrightarrow> int (snd p) \<ge> thr"
  by (auto simp: set_pushStreaks parityInfo_def sizeInfo_def split: if_splits)

lemma pushStreaks_has_size:
  "(\<exists>d\<in>set (pushStreaks rule thr nh rid p s []). dtype d = Size) \<longleftrightarrow> int (snd s) \<ge> thr"
  by (auto simp: set_pushStreaks parityInfo_def sizeInfo_def split: if_splits)

lemma rowEntries_rowId:
  "d \<in> set (rowEntries rule thr chrono rows r) \<Longrightarrow> rowId d = Some (r + 1)"
  by (auto simp: rowEntries_def dest: pushStreaks_fields(1) split: if_splits)

lemma concat_map_none:
  "r \<notin> set ks \<Longrightarrow> concat (map (\<lambda>k. if k = r then E else []) ks) = []"
  by (induction ks) auto

lemma concat_map_single:
  assumes "r < n"
  shows "concat (map (\<lambda>k. if k = r then E else []) [0..<n]) = E"
proof -
  have "[0..<r + (n - r)] = [0..<r] @ [r..<r + (n - r)]" by (rule upt_add_eq_append) simp
  then have "[0..<n] = [0..<r] @ r # [Suc r..<n]" using assms by (simp add: upt_conv_Cons)
  then show ?thesis by (simp add: concat_map_none)
qed

lemma filter_rowId_rows:
  assumes "r < n"
  shows "filter (\<lambda>d. rowId d = Some (r + 1)) (concat (map (rowEntries rule thr chrono rows) [0..<n]))
       = rowEntries rule thr chrono rows r"
proof -
  have each: "filter (\<lambda>d. rowId d = Some (Suc r)) (rowEntries rule thr chrono rows k)
        = (if k = r then rowEntries rule thr chrono rows r else [])" for k
  proof (cases "k = r")
    case True
    then show ?thesis using rowEntries_rowId[of _ rule thr chrono rows r]
      by (simp add: filter_id_conv)
  next
    case False
    then show ?thesis using rowEntries_rowId[of _ rule thr chrono rows k]
      by (auto simp: filter_empty_conv)
  qed
  have "filter (\<lambda>d. rowId d = Some (r + 1)) (concat (map (rowEntries rule thr chrono rows) [0..<n]))
      = concat (map (\<lambda>k. if k = r then rowEntries rule thr chrono rows r else []) [0..<n])"
    by (simp add: filter_concat comp_def each)
  then show ?thesis using concat_map_single[OF assms] by simp
qed

lemma sorted_spec_row:
  assumes "sorted (map f chrono)"
  shows "sorted (map f (spec_row chrono rows r))"
proof -
  have s: "sorted_wrt (<) (filter (\<lambda>i. i mod rows = r) [0..<length chrono])"
    by (rule sorted_wrt_filter) (rule sorted_wrt_upt)
  have "sorted_wrt (\<lambda>i j. f (chrono ! i) \<le> f (chrono ! j)) (filter (\<lambda>i. i mod rows = r) [0..<length chrono])"
  proof (rule sorted_wrt_mono_rel[OF _ s])
    fix i j assume "i \<in> set (filter (\<lambda>i. i mod rows = r) [0..<length chrono])"
      "j \<in> set (filter (\<lambda>i. i mod rows = r) [0..<length chrono])" "i < j"
    then have "i \<le> j" "j < length (map f chrono)" by auto
    from sorted_nth_mono[OF assms this] \<open>i < j\<close> \<open>j < length (map f chrono)\<close>
    show "f (chrono ! i) \<le> f (chrono ! j)" by simp
  qed
  then show ?thesis by (simp add: spec_row_def sorted_map sorted_wrt_map)
qed

lemma sorted_last_Max:
  fixes xs :: "int list"
  assumes "sorted xs" "xs \<noteq> []"
  shows "last xs = Max (set xs)"
proof (rule Max_eqI[symmetric])
  show "finite (set xs)" by simp
  have "sorted (butlast xs @ [last xs])" using assms by simp
  then show "\<And>y. y \<in> set xs \<Longrightarrow> y \<le> last xs"
    using in_set_butlastD assms(2)
    by (metis append_butlast_last_id Un_iff empty_iff insert_iff list.set(1) list.set(2) order_refl set_append sorted_append)
  show "last xs \<in> set xs" using assms(2) by simp
qed

lemma sorted_sortAscHeight: "sorted (map height (sortAscHeight xs))"
  by (simp add: sortAscHeight_def)

lemma last_spec_row_Max:
  assumes "spec_row (sortAscHeight xs) rows r \<noteq> []"
  shows "height (last (spec_row (sortAscHeight xs) rows r)) =
         Max (height ` set (spec_row (sortAscHeight xs) rows r))"
  using sorted_last_Max[OF sorted_spec_row[OF sorted_sortAscHeight, of xs rows r]] assms
  by (simp add: last_map)

lemma hd_filtered_Max:
  assumes "filtered rule allBlocks \<noteq> []"
  shows "height (hd (filtered rule allBlocks)) = Max (height ` set (filtered rule allBlocks))"
proof -
  let ?xs = "filtered rule allBlocks"
  have s: "sorted (map (\<lambda>b. - height b) ?xs)"
    by (simp add: filtered_def sortDescHeight_def)
  show ?thesis
  proof (rule Max_eqI[symmetric])
    show "finite (height ` set ?xs)" by simp
    show "height (hd ?xs) \<in> height ` set ?xs" using assms by simp
    fix y assume "y \<in> height ` set ?xs"
    then obtain b where b: "b \<in> set ?xs" "y = height b" by auto
    obtain a ys where xs: "?xs = a # ys" using assms by (cases ?xs) auto
    from s b show "y \<le> height (hd ?xs)" unfolding xs by auto
  qed
qed

lemma rowEntries_mem:
  assumes "d \<in> set (rowEntries rule thr chrono rows r)"
  shows "spec_row chrono rows r \<noteq> []" "rowId d = Some (r + 1)"
    "nextHeight d = height (last (spec_row chrono rows r)) + rule_value rule * int rows"
    "threshold d = thr" "int (count d) \<ge> thr"
proof -
  show ne: "spec_row chrono rows r \<noteq> []" using assms by (auto simp: rowEntries_def split: if_splits)
  then have d: "d \<in> set (pushStreaks rule thr
             (height (last (spec_row chrono rows r)) + rule_value rule * int rows) (Some (r + 1))
             (streakOf Key_type (rev (spec_row chrono rows r)))
             (streakOf Key_sizeType (rev (spec_row chrono rows r))) [])"
    using assms by (simp add: rowEntries_def)
  show "rowId d = Some (r + 1)" using pushStreaks_fields(1)[OF d] .
  show "nextHeight d = height (last (spec_row chrono rows r)) + rule_value rule * int rows"
    using pushStreaks_fields(2)[OF d] .
  show "threshold d = thr" using pushStreaks_fields(3)[OF d] .
  show "int (count d) \<ge> thr" using pushStreaks_fields(4)[OF d] .
qed

lemma beadEntries_mem:
  assumes "d \<in> set (beadEntries rule allBlocks)"
  shows "\<exists>r. int r < js_or (Some (beadRows rule)) 6 \<and>
     d \<in> set (rowEntries rule (js_or (dragonThreshold rule) 3)
                 (sortAscHeight (filtered rule allBlocks))
                 (nat (js_or (Some (beadRows rule)) 6)) r)"
proof -
  from assms obtain x where x: "x < nat (js_or (Some (beadRows rule)) 6)"
    "d \<in> set (rowEntries rule (js_or (dragonThreshold rule) 3)
                 (sortAscHeight (filtered rule allBlocks))
                 (nat (js_or (Some (beadRows rule)) 6)) x)"
    by (auto simp: beadEntries_def split: if_splits)
  from x(1) have "int x < js_or (Some (beadRows rule)) 6" by linarith
  with x(2) show ?thesis by blast
qed

lemma filtered_beadRows_update [simp]:
  "filtered (rule\<lparr>beadRows := k\<rparr>) allBlocks = filtered rule allBlocks"
  by (simp add: filtered_def checkAlignment_def)

lemma pushStreaks_beadRows_update [simp]:
  "pushStreaks (rule\<lparr>beadRows := k\<rparr>) thr nh rid p s res = pushStreaks rule thr nh rid p s res"
  by (simp add: pushStreaks_def parityInfo_def sizeInfo_def)

lemma rowEntries_beadRows_update [simp]:
  "rowEntries (rule\<lparr>beadRows := k\<rparr>) thr chrono rows = rowEntries rule thr chrono rows"
  by (rule ext) (simp add: rowEntries_def)

section \<open>Ranking of the two result lists\<close>

text \<open>
  Claim C9. After all rules are processed, both output lists (trend dragons and row dragons)
  are sorted in descending order of \<open>count\<close>: every entry's count is greater than or equal
  to the count of every later entry of the same list. The computation always returns.
\<close>

theorem dragons_sorted_desc:
  "\<exists>t b. dragonList allBlocks rules = Some (Inr (t, b)) \<and>
         sorted_wrt (\<lambda>x y. count x \<ge> count y) t \<and>
         sorted_wrt (\<lambda>x y. count x \<ge> count y) b"
proof -
  have srt: "sorted_wrt (\<lambda>x y. count x \<ge> count y) (sortDescCount ds)" for ds
  proof -
    have "sorted (map (\<lambda>d. - int (count d)) (sortDescCount ds))"
      by (simp add: sortDescCount_def)
    then show ?thesis by (simp add: sorted_map)
  qed
  show ?thesis
  proof (cases "allBlocks = []")
    case True
    then show ?thesis by (simp add: dragonList_def)
  next
    case False
    then show ?thesis by (simp add: dragonList_def rulesForEach_eq srt)
  qed
qed

theorem dragons_sorted_desc_witness:
  "\<exists>t b. dragonList sampleBlocks [sampleRule] = Some (Inr (t, b)) \<and>
         sorted_wrt (\<lambda>x y. count x \<ge> count y) t \<and>
         sorted_wrt (\<lambda>x y. count x \<ge> count y) b \<and>
         map count t = [3, 2] \<and> map count b = [3]"
proof -
  have e: "dragonList sampleBlocks [sampleRule] =
     Some (Inr ([sizeInfo sampleRule 2 8 None (ST BIG, 3),
                 parityInfo sampleRule 2 8 None (BT ODD, 2)],
                [sizeInfo sampleRule 2 9 (Some 1) (ST BIG, 3)]))"
    by code_simp
  from dragons_sorted_desc [of sampleBlocks "[sampleRule]"] obtain t b where
    d: "dragonList sampleBlocks [sampleRule] = Some (Inr (t, b))"
    and s: "sorted_wrt (\<lambda>x y. count x \<ge> count y) t" "sorted_wrt (\<lambda>x y. count x \<ge> count y) b"
    by blast
  have t: "t = [sizeInfo sampleRule 2 8 None (ST BIG, 3), parityInfo sampleRule 2 8 None (BT ODD, 2)]"
    and b: "b = [sizeInfo sampleRule 2 9 (Some 1) (ST BIG, 3)]"
    using d e by simp_all
  have c: "map count t = [3, 2] \<and> map count b = [3]"
    unfolding t b by (simp add: sizeInfo_def parityInfo_def)
  show ?thesis
    by (intro exI[of _ t] exI[of _ b] conjI) (use d s c in simp_all)
qed

section \<open>Empty input and empty aligned sets\<close>

text \<open>
  Claim C6. The dragon computation degrades on empty input rather than failing: on an empty
  outcome sequence both output lists are empty whatever the rules are; the computation
  never ends in an error; and a rule whose aligned set is empty leaves both result lists
  as they were, so that dropping it from the rule list does not change the result.
\<close>

theorem dragon_empty_degrades:
  "dragonList [] rules = Some (Inr ([], [])) \<and>
   (\<exists>t b. dragonList allBlocks rules = Some (Inr (t, b))) \<and>
   (filtered rule allBlocks = [] \<longrightarrow>
      processRule allBlocks rule st = Some (Inr st) \<and>
      dragonList allBlocks (rs1 @ rule # rs2) = dragonList allBlocks (rs1 @ rs2))"
proof (intro conjI impI)
  show "dragonList [] rules = Some (Inr ([], []))" by (simp add: dragonList_def)
  show "\<exists>t b. dragonList allBlocks rules = Some (Inr (t, b))"
    by (simp add: dragonList_def rulesForEach_eq)
next
  assume e: "filtered rule allBlocks = []"
  then show "processRule allBlocks rule st = Some (Inr st)" by (simp add: processRule_def)
  from e have "trendEntries rule allBlocks = []" "beadEntries rule allBlocks = []"
    by (simp_all add: trendEntries_def beadEntries_def)
  then show "dragonList allBlocks (rs1 @ rule # rs2) = dragonList allBlocks (rs1 @ rs2)"
    by (simp add: dragonList_def rulesForEach_eq)
qed

theorem dragon_empty_degrades_witness:
  "filtered (sampleRule\<lparr>rule_value := 100\<rparr>) sampleBlocks = [] \<and>
   processRule sampleBlocks (sampleRule\<lparr>rule_value := 100\<rparr>) ([], []) = Some (Inr ([], [])) \<and>
   dragonList sampleBlocks ([sampleRule] @ sampleRule\<lparr>rule_value := 100\<rparr> # []) =
     dragonList sampleBlocks ([sampleRule] @ [])"
proof -
  have h: "filtered (sampleRule\<lparr>rule_value := 100\<rparr>) sampleBlocks = []" by code_simp
  show ?thesis
    using h dragon_empty_degrades [where allBlocks = sampleBlocks
        and rule = "sampleRule\<lparr>rule_value := 100\<rparr>" and st = "([], [])"
        and ?rs1.0 = "[sampleRule]" and ?rs2.0 = "[]"]
    by blast
qed

section \<open>Projected next heights\<close>

text \<open>
  Claim C8. For every rule with a non-empty aligned set, the projected next height of each
  of the rule's trend entries is the greatest aligned height plus \<open>rule.value\<close>, and the
  projected next height of a row entry for row \<open>r\<close> is the height of that row's most recent
  (last, and greatest) element plus \<open>rule.value * rows\<close>. The code adds and multiplies
  doubles, so this is stated where that arithmetic is exact: the step, the start block, the
  row count, the product \<open>rule.value * rows\<close>, every height of the input, its distance
  from the start block and both projections from it are safe integers.
\<close>

theorem projected_next_height:
  assumes "filtered rule allBlocks \<noteq> []"
    and "safeInteger (rule_value rule)"
    and "safeInteger (startBlock rule)"
    and "safeInteger (js_or (Some (beadRows rule)) 6)"
    and "safeInteger (rule_value rule * js_or (Some (beadRows rule)) 6)"
    and "\<forall>b\<in>set allBlocks.
           safeInteger (height b) \<and>
           safeInteger (height b - startBlock rule) \<and>
           safeInteger (height b + rule_value rule) \<and>
           safeInteger (height b + rule_value rule * js_or (Some (beadRows rule)) 6)"
  shows "\<exists>t b. processRule allBlocks rule ([], []) = Some (Inr (t, b)) \<and>
    (\<forall>d\<in>set t. nextHeight d = Max (height ` set (filtered rule allBlocks)) + rule_value rule) \<and>
    (\<forall>d\<in>set b. \<exists>r items.
        rowId d = Some (r + 1) \<and>
        rowItemsLoop (sortAscHeight (filtered rule allBlocks))
          (nat (js_or (Some (beadRows rule)) 6)) r [] = Some items \<and>
        items \<noteq> [] \<and>
        height (last items) = Max (height ` set items) \<and>
        nextHeight d = height (last items) + rule_value rule * js_or (Some (beadRows rule)) 6)"
proof -
  let ?ch = "sortAscHeight (filtered rule allBlocks)"
  let ?R = "js_or (Some (beadRows rule)) 6"
  have p: "processRule allBlocks rule ([], []) =
      Some (Inr (trendEntries rule allBlocks, beadEntries rule allBlocks))"
    by (simp add: processRule_eq)
  have t: "\<forall>d\<in>set (trendEntries rule allBlocks).
      nextHeight d = Max (height ` set (filtered rule allBlocks)) + rule_value rule"
  proof
    fix d assume "d \<in> set (trendEntries rule allBlocks)"
    then have "nextHeight d = height (hd (filtered rule allBlocks)) + rule_value rule"
      using assms(1) by (auto simp: trendEntries_def dest: pushStreaks_fields(2))
    then show "nextHeight d = Max (height ` set (filtered rule allBlocks)) + rule_value rule"
      by (simp add: hd_filtered_Max[OF assms(1)])
  qed
  have b: "\<forall>d\<in>set (beadEntries rule allBlocks). \<exists>r items.
        rowId d = Some (r + 1) \<and>
        rowItemsLoop ?ch (nat ?R) r [] = Some items \<and>
        items \<noteq> [] \<and>
        height (last items) = Max (height ` set items) \<and>
        nextHeight d = height (last items) + rule_value rule * ?R"
  proof
    fix d assume m: "d \<in> set (beadEntries rule allBlocks)"
    from beadEntries_mem[OF m]
    obtain r where r: "int r < ?R"
      and d: "d \<in> set (rowEntries rule (js_or (dragonThreshold rule) 3) ?ch (nat ?R) r)"
      by blast
    have lt: "r < nat ?R" using r by linarith
    have pos: "int (nat ?R) = ?R" using r by linarith
    have "rowId d = Some (r + 1) \<and>
        rowItemsLoop ?ch (nat ?R) r [] = Some (spec_row ?ch (nat ?R) r) \<and>
        spec_row ?ch (nat ?R) r \<noteq> [] \<and>
        height (last (spec_row ?ch (nat ?R) r)) = Max (height ` set (spec_row ?ch (nat ?R) r)) \<and>
        nextHeight d = height (last (spec_row ?ch (nat ?R) r)) + rule_value rule * ?R"
      using rowEntries_mem(1-3)[OF d] rowItemsLoop_spec_row[OF lt, of ?ch] pos
        last_spec_row_Max[of "filtered rule allBlocks" "nat ?R" r]
      by simp
    then show "\<exists>r items.
        rowId d = Some (r + 1) \<and>
        rowItemsLoop ?ch (nat ?R) r [] = Some items \<and>
        items \<noteq> [] \<and>
        height (last items) = Max (height ` set items) \<and>
        nextHeight d = height (last items) + rule_value rule * ?R"
      by blast
  qed
  show ?thesis using p t b by blast
qed

theorem projected_next_height_witness:
  "filtered sampleRule sampleBlocks \<noteq> [] \<and>
   safeInteger (rule_value sampleRule) \<and>
   safeInteger (startBlock sampleRule) \<and>
   safeInteger (js_or (Some (beadRows sampleRule)) 6) \<and>
   safeInteger (rule_value sampleRule * js_or (Some (beadRows sampleRule)) 6) \<and>
   list_all (\<lambda>b.
      safeInteger (height b) \<and>
      safeInteger (height b - startBlock sampleRule) \<and>
      safeInteger (height b + rule_value sampleRule) \<and>
      safeInteger (height b + rule_value sampleRule * js_or (Some (beadRows sampleRule)) 6))
     sampleBlocks \<and>
   (\<exists>t b. processRule sampleBlocks sampleRule ([], []) = Some (Inr (t, b)) \<and>
      parityInfo sampleRule 2 8 None (BT ODD, 2) \<in> set t \<and>
      nextHeight (parityInfo sampleRule 2 8 None (BT ODD, 2)) =
        Max (height ` set (filtered sampleRule sampleBlocks)) + rule_value sampleRule \<and>
      sizeInfo sampleRule 2 9 (Some 1) (ST BIG, 3) \<in> set b \<and>
      (\<exists>r items.
        rowId (sizeInfo sampleRule 2 9 (Some 1) (ST BIG, 3)) = Some (r + 1) \<and>
        rowItemsLoop (sortAscHeight (filtered sampleRule sampleBlocks))
          (nat (js_or (Some (beadRows sampleRule)) 6)) r [] = Some items \<and>
        items \<noteq> [] \<and>
        height (last items) = Max (height ` set items) \<and>
        nextHeight (sizeInfo sampleRule 2 9 (Some 1) (ST BIG, 3)) =
          height (last items) + rule_value sampleRule * js_or (Some (beadRows sampleRule)) 6))"
proof -
  have h: "filtered sampleRule sampleBlocks \<noteq> []" by code_simp
  have s1: "safeInteger (rule_value sampleRule)"
    by (simp add: safeInteger_def sampleRule_def)
  have s2: "safeInteger (startBlock sampleRule)"
    by (simp add: safeInteger_def sampleRule_def)
  have s3: "safeInteger (js_or (Some (beadRows sampleRule)) 6)"
    by (simp add: safeInteger_def sampleRule_def js_or_def)
  have s4: "safeInteger (rule_value sampleRule * js_or (Some (beadRows sampleRule)) 6)"
    by (simp add: safeInteger_def sampleRule_def js_or_def)
  have s5: "\<forall>b\<in>set sampleBlocks.
      safeInteger (height b) \<and>
      safeInteger (height b - startBlock sampleRule) \<and>
      safeInteger (height b + rule_value sampleRule) \<and>
      safeInteger (height b + rule_value sampleRule * js_or (Some (beadRows sampleRule)) 6)"
    by (simp add: safeInteger_def sampleRule_def sampleBlocks_def mkBlock_def js_or_def)
  have p: "processRule sampleBlocks sampleRule ([], []) =
     Some (Inr ([parityInfo sampleRule 2 8 None (BT ODD, 2),
                 sizeInfo sampleRule 2 8 None (ST BIG, 3)],
                [sizeInfo sampleRule 2 9 (Some 1) (ST BIG, 3)]))"
    by code_simp
  have c: "\<exists>t b. processRule sampleBlocks sampleRule ([], []) = Some (Inr (t, b)) \<and>
      parityInfo sampleRule 2 8 None (BT ODD, 2) \<in> set t \<and>
      nextHeight (parityInfo sampleRule 2 8 None (BT ODD, 2)) =
        Max (height ` set (filtered sampleRule sampleBlocks)) + rule_value sampleRule \<and>
      sizeInfo sampleRule 2 9 (Some 1) (ST BIG, 3) \<in> set b \<and>
      (\<exists>r items.
        rowId (sizeInfo sampleRule 2 9 (Some 1) (ST BIG, 3)) = Some (r + 1) \<and>
        rowItemsLoop (sortAscHeight (filtered sampleRule sampleBlocks))
          (nat (js_or (Some (beadRows sampleRule)) 6)) r [] = Some items \<and>
        items \<noteq> [] \<and>
        height (last items) = Max (height ` set items) \<and>
        nextHeight (sizeInfo sampleRule 2 9 (Some 1) (ST BIG, 3)) =
          height (last items) + rule_value sampleRule * js_or (Some (beadRows sampleRule)) 6)"
    using p projected_next_height [OF h s1 s2 s3 s4 s5] by auto
  have s5': "list_all (\<lambda>b.
      safeInteger (height b) \<and>
      safeInteger (height b - startBlock sampleRule) \<and>
      safeInteger (height b + rule_value sampleRule) \<and>
      safeInteger (height b + rule_value sampleRule * js_or (Some (beadRows sampleRule)) 6))
     sampleBlocks"
    using s5 by (simp only: list_all_iff)
  show ?thesis using h s1 s2 s3 s4 s5' c by (intro conjI)
qed

section \<open>Reporting threshold\<close>

text \<open>
  Claim C5. For every rule, a trend or row streak is reported as a \<open>DragonInfo\<close> if and only
  if its count is at least the threshold, where the threshold is \<open>rule.dragonThreshold\<close>
  when that field is truthy and 3 when it is absent or zero. So a run of exactly
  \<open>threshold - 1\<close> is excluded and a run of exactly \<open>threshold\<close> is included. Every reported
  entry carries that threshold and a count that reaches it.
\<close>

theorem dragon_threshold:
  assumes "filtered rule allBlocks \<noteq> []"
  shows "\<exists>p s t b.
     calculateStreak (filtered rule allBlocks) Key_type = Inr p \<and>
     calculateStreak (filtered rule allBlocks) Key_sizeType = Inr s \<and>
     processRule allBlocks rule ([], []) = Some (Inr (t, b)) \<and>
     ((\<exists>d\<in>set t. dtype d = Parity) \<longleftrightarrow> int (snd p) \<ge> js_or (dragonThreshold rule) 3) \<and>
     ((\<exists>d\<in>set t. dtype d = Size) \<longleftrightarrow> int (snd s) \<ge> js_or (dragonThreshold rule) 3) \<and>
     (\<forall>d\<in>set t \<union> set b. threshold d = js_or (dragonThreshold rule) 3 \<and>
                           int (count d) \<ge> js_or (dragonThreshold rule) 3) \<and>
     (\<forall>r items.
        int r < js_or (Some (beadRows rule)) 6 \<and>
        rowItemsLoop (sortAscHeight (filtered rule allBlocks))
          (nat (js_or (Some (beadRows rule)) 6)) r [] = Some items \<and> items \<noteq> [] \<longrightarrow>
        (\<exists>rp rs.
           calcRowStreak (rev items) Key_type = Inr rp \<and>
           calcRowStreak (rev items) Key_sizeType = Inr rs \<and>
           ((\<exists>d\<in>set b. rowId d = Some (r + 1) \<and> dtype d = Parity) \<longleftrightarrow>
              int (snd rp) \<ge> js_or (dragonThreshold rule) 3) \<and>
           ((\<exists>d\<in>set b. rowId d = Some (r + 1) \<and> dtype d = Size) \<longleftrightarrow>
              int (snd rs) \<ge> js_or (dragonThreshold rule) 3))) \<and>
     js_or (dragonThreshold rule) 3 =
       (case dragonThreshold rule of None \<Rightarrow> 3 | Some n \<Rightarrow> if n = 0 then 3 else n)"
proof -
  let ?flt = "filtered rule allBlocks"
  let ?thr = "js_or (dragonThreshold rule) 3"
  let ?ch = "sortAscHeight ?flt"
  let ?R = "js_or (Some (beadRows rule)) 6"
  let ?t = "trendEntries rule allBlocks"
  let ?b = "beadEntries rule allBlocks"
  have t: "?t = pushStreaks rule ?thr (height (hd ?flt) + rule_value rule) None
             (streakOf Key_type ?flt) (streakOf Key_sizeType ?flt) []"
    using assms by (simp add: trendEntries_def)
  have b: "?b = concat (map (rowEntries rule ?thr ?ch (nat ?R)) [0..<nat ?R])"
    using assms by (simp add: beadEntries_def)
  have c1: "calculateStreak ?flt Key_type = Inr (streakOf Key_type ?flt)"
    by (rule calculateStreak_eq[OF assms])
  have c2: "calculateStreak ?flt Key_sizeType = Inr (streakOf Key_sizeType ?flt)"
    by (rule calculateStreak_eq[OF assms])
  have c3: "processRule allBlocks rule ([], []) = Some (Inr (?t, ?b))"
    by (simp add: processRule_eq)
  have c4: "(\<exists>d\<in>set ?t. dtype d = Parity) \<longleftrightarrow> int (snd (streakOf Key_type ?flt)) \<ge> ?thr"
    unfolding t by (rule pushStreaks_has_parity)
  have c5: "(\<exists>d\<in>set ?t. dtype d = Size) \<longleftrightarrow> int (snd (streakOf Key_sizeType ?flt)) \<ge> ?thr"
    unfolding t by (rule pushStreaks_has_size)
  have c6: "\<forall>d\<in>set ?t \<union> set ?b. threshold d = ?thr \<and> int (count d) \<ge> ?thr"
  proof
    fix d assume "d \<in> set ?t \<union> set ?b"
    then consider "d \<in> set ?t" | "d \<in> set ?b" by blast
    then show "threshold d = ?thr \<and> int (count d) \<ge> ?thr"
    proof cases
      case 1
      then show ?thesis unfolding t using pushStreaks_fields(3,4) by blast
    next
      case 2
      from beadEntries_mem[OF this] obtain r where
        "d \<in> set (rowEntries rule ?thr ?ch (nat ?R) r)" by blast
      then show ?thesis using rowEntries_mem(4,5) by blast
    qed
  qed
  have c7: "\<forall>r items.
        int r < ?R \<and> rowItemsLoop ?ch (nat ?R) r [] = Some items \<and> items \<noteq> [] \<longrightarrow>
        (\<exists>rp rs.
           calcRowStreak (rev items) Key_type = Inr rp \<and>
           calcRowStreak (rev items) Key_sizeType = Inr rs \<and>
           ((\<exists>d\<in>set ?b. rowId d = Some (r + 1) \<and> dtype d = Parity) \<longleftrightarrow> int (snd rp) \<ge> ?thr) \<and>
           ((\<exists>d\<in>set ?b. rowId d = Some (r + 1) \<and> dtype d = Size) \<longleftrightarrow> int (snd rs) \<ge> ?thr))"
  proof (intro allI impI)
    fix r items
    assume a: "int r < ?R \<and> rowItemsLoop ?ch (nat ?R) r [] = Some items \<and> items \<noteq> []"
    then have "int r < ?R" by (rule conjunct1)
    then have lt: "r < nat ?R" by linarith
    have items: "items = spec_row ?ch (nat ?R) r"
      using a rowItemsLoop_spec_row[OF lt, of ?ch] by simp
    have ne: "rev items \<noteq> []" using a by simp
    let ?E = "rowEntries rule ?thr ?ch (nat ?R) r"
    have E: "?E = pushStreaks rule ?thr
             (height (last items) + rule_value rule * int (nat ?R)) (Some (r + 1))
             (streakOf Key_type (rev items)) (streakOf Key_sizeType (rev items)) []"
      using a items by (simp add: rowEntries_def)
    have f: "filter (\<lambda>d. rowId d = Some (r + 1)) ?b = ?E"
      unfolding b by (rule filter_rowId_rows[OF lt])
    have g: "(\<exists>d\<in>set ?b. rowId d = Some (r + 1) \<and> Q d) \<longleftrightarrow> (\<exists>d\<in>set ?E. Q d)" for Q
    proof -
      have "set ?E = {d \<in> set ?b. rowId d = Some (r + 1)}"
        unfolding f[symmetric] by simp
      then show ?thesis by blast
    qed
    show "\<exists>rp rs.
           calcRowStreak (rev items) Key_type = Inr rp \<and>
           calcRowStreak (rev items) Key_sizeType = Inr rs \<and>
           ((\<exists>d\<in>set ?b. rowId d = Some (r + 1) \<and> dtype d = Parity) \<longleftrightarrow> int (snd rp) \<ge> ?thr) \<and>
           ((\<exists>d\<in>set ?b. rowId d = Some (r + 1) \<and> dtype d = Size) \<longleftrightarrow> int (snd rs) \<ge> ?thr)"
      apply (rule exI[of _ "streakOf Key_type (rev items)"])
      apply (rule exI[of _ "streakOf Key_sizeType (rev items)"])
      unfolding g E
      using calcRowStreak_eq[OF ne] pushStreaks_has_parity pushStreaks_has_size
      by blast
  qed
  have c8: "?thr = (case dragonThreshold rule of None \<Rightarrow> 3 | Some n \<Rightarrow> if n = 0 then 3 else n)"
    by (simp add: js_or_def)
  show ?thesis
    using c1 c2 c3 c4 c5 c6 c7 c8 by blast
qed

theorem dragon_threshold_witness:
  "filtered sampleRule sampleBlocks \<noteq> [] \<and>
   (int 0 < js_or (Some (beadRows sampleRule)) 6 \<and>
    rowItemsLoop (sortAscHeight (filtered sampleRule sampleBlocks))
      (nat (js_or (Some (beadRows sampleRule)) 6)) 0 [] =
      Some [mkBlock 1 1, mkBlock 3 7, mkBlock 5 8, mkBlock 7 5] \<and>
    [mkBlock 1 1, mkBlock 3 7, mkBlock 5 8, mkBlock 7 5] \<noteq> []) \<and>
   (\<exists>p s t b rp rs.
      calculateStreak (filtered sampleRule sampleBlocks) Key_type = Inr p \<and>
      calculateStreak (filtered sampleRule sampleBlocks) Key_sizeType = Inr s \<and>
      processRule sampleBlocks sampleRule ([], []) = Some (Inr (t, b)) \<and>
      ((\<exists>d\<in>set t. dtype d = Parity) \<longleftrightarrow> int (snd p) \<ge> js_or (dragonThreshold sampleRule) 3) \<and>
      ((\<exists>d\<in>set t. dtype d = Size) \<longleftrightarrow> int (snd s) \<ge> js_or (dragonThreshold sampleRule) 3) \<and>
      calcRowStreak (rev [mkBlock 1 1, mkBlock 3 7, mkBlock 5 8, mkBlock 7 5]) Key_type = Inr rp \<and>
      calcRowStreak (rev [mkBlock 1 1, mkBlock 3 7, mkBlock 5 8, mkBlock 7 5]) Key_sizeType = Inr rs \<and>
      ((\<exists>d\<in>set b. rowId d = Some (0 + 1) \<and> dtype d = Parity) \<longleftrightarrow>
         int (snd rp) \<ge> js_or (dragonThreshold sampleRule) 3) \<and>
      ((\<exists>d\<in>set b. rowId d = Some (0 + 1) \<and> dtype d = Size) \<longleftrightarrow>
         int (snd rs) \<ge> js_or (dragonThreshold sampleRule) 3))"
proof -
  have h1: "filtered sampleRule sampleBlocks \<noteq> []" by code_simp
  have h2: "int 0 < js_or (Some (beadRows sampleRule)) 6 \<and>
    rowItemsLoop (sortAscHeight (filtered sampleRule sampleBlocks))
      (nat (js_or (Some (beadRows sampleRule)) 6)) 0 [] =
      Some [mkBlock 1 1, mkBlock 3 7, mkBlock 5 8, mkBlock 7 5] \<and>
    [mkBlock 1 1, mkBlock 3 7, mkBlock 5 8, mkBlock 7 5] \<noteq> []"
    by code_simp
  show ?thesis
    using h1 h2 dragon_threshold [OF h1] by blast
qed

section \<open>Row partition and row streaks\<close>



section \<open>Default row count\<close>



section \<open>Trend grid\<close>

lemma padColumn_eq: "padColumn rows col = padded rows col"
proof (induction rows col rule: padColumn.induct)
  case (1 rows col)
  show ?case
  proof (cases "length col < rows")
    case False
    then show ?thesis by (subst padColumn.simps) (simp add: padded_def)
  next
    case True
    then have "rows - length col = Suc (rows - Suc (length col))" by simp
    then have "replicate (rows - length col) emptyCell
             = emptyCell # replicate (rows - Suc (length col)) emptyCell"
      by simp
    then show ?thesis
      using True "1.IH"[OF True] by (subst padColumn.simps) (simp add: padded_def)
  qed
qed

lemma padGrid_eq:
  "padGrid minCols rows cols = cols @ replicate (minCols - length cols) (emptyColumn rows)"
proof (induction minCols rows cols rule: padGrid.induct)
  case (1 minCols rows cols)
  show ?case
  proof (cases "length cols < minCols")
    case False
    then show ?thesis by (subst padGrid.simps) simp
  next
    case True
    then have "minCols - length cols = Suc (minCols - Suc (length cols))" by simp
    then have "replicate (minCols - length cols) (emptyColumn rows)
             = emptyColumn rows # replicate (minCols - Suc (length cols)) (emptyColumn rows)"
      by simp
    then show ?thesis
      using True "1.IH"[OF True] by (subst padGrid.simps) simp
  qed
qed

lemma group_okD:
  assumes "group_ok rows g"
  shows "g \<noteq> []" "length g \<le> rows"
    "\<And>x. x \<in> set g \<Longrightarrow> cell_type x \<noteq> None"
    "\<And>x. x \<in> set g \<Longrightarrow> cell_type x = cell_type (hd g)"
  using assms unfolding group_ok_def by blast+

lemma group_okI:
  assumes "g \<noteq> []" "length g \<le> rows"
    "\<And>x. x \<in> set g \<Longrightarrow> cell_type x \<noteq> None"
    "\<And>x. x \<in> set g \<Longrightarrow> cell_type x = cell_type (hd g)"
  shows "group_ok rows g"
  using assms unfolding group_ok_def by blast

lemma trend_invI:
  assumes "currentColumn s = [] \<Longrightarrow> xs = [] \<and> columns s = [] \<and> lastVal s = None"
    and "currentColumn s \<noteq> [] \<Longrightarrow>
         lastVal s = cell_type (hd (currentColumn s)) \<and> group_ok rows (currentColumn s)"
    and "columns s = map (padded rows) groups"
    and "concat groups @ currentColumn s = map (blockCell key) xs"
    and "\<forall>g\<in>set groups. group_ok rows g"
    and "successively (col_break rows) (groups @ [currentColumn s])"
  shows "trend_inv key rows xs s"
  unfolding trend_inv_def using assms by blast

lemma trend_inv_init:
  "trend_inv key rows [] \<lparr>columns = [], currentColumn = [], lastVal = None\<rparr>"
  by (simp add: trend_inv_def)

lemma blockCell_type [simp]: "cell_type (blockCell key b) = Some (keyOf key b)"
  by (simp add: blockCell_def)

lemma trendStep_inv:
  assumes rows: "1 \<le> rows" and inv: "trend_inv key rows xs s"
  shows "trend_inv key rows (xs @ [b]) (trendStep key rows s b)"
proof -
  let ?c = "blockCell key b"
  let ?cur = "currentColumn s"
  from inv obtain groups where
    e: "?cur = [] \<longrightarrow> xs = [] \<and> columns s = [] \<and> lastVal s = None"
    and n: "?cur \<noteq> [] \<longrightarrow> lastVal s = cell_type (hd ?cur) \<and> group_ok rows ?cur"
    and g1: "columns s = map (padded rows) groups"
    and g2: "concat groups @ ?cur = map (blockCell key) xs"
    and g3: "\<forall>g\<in>set groups. group_ok rows g"
    and g4: "successively (col_break rows) (groups @ [?cur])"
    unfolding trend_inv_def by blast
  have single: "group_ok rows [?c]" using rows by (intro group_okI) simp_all
  show ?thesis
  proof (cases "Some (keyOf key b) \<noteq> lastVal s \<or> length ?cur \<ge> rows")
    case True
    then have st: "trendStep key rows s b =
        \<lparr>columns = closeColumn rows (columns s) ?cur, currentColumn = [?c],
         lastVal = Some (keyOf key b)\<rparr>"
      by (simp add: trendStep_def Let_def)
    show ?thesis
    proof (cases "?cur = []")
      case True
      then have z: "xs = []" "columns s = []" "groups = []" using e g1 by auto
      show ?thesis
        unfolding st
        by (rule trend_invI[where groups = "[]"]) (use z single True in \<open>simp_all add: closeColumn_def\<close>)
    next
      case False
      have ok: "group_ok rows ?cur" and lv: "lastVal s = cell_type (hd ?cur)"
        using n False by auto
      have "last ?cur \<in> set ?cur" using False by simp
      then have lastcur: "cell_type (last ?cur) = cell_type (hd ?cur)"
        by (rule group_okD(4)[OF ok])
      have br: "col_break rows ?cur [?c]"
      proof (cases "length ?cur \<ge> rows")
        case True
        then show ?thesis using group_okD(2)[OF ok] by (simp add: col_break_def)
      next
        case False
        then have "Some (keyOf key b) \<noteq> lastVal s" using True by blast
        then show ?thesis unfolding lv lastcur[symmetric] by (simp add: col_break_def)
      qed
      have cols: "closeColumn rows (columns s) ?cur = map (padded rows) (groups @ [?cur])"
        using False g1 by (simp add: closeColumn_def padColumn_eq)
      have cc: "concat (groups @ [?cur]) @ [?c] = map (blockCell key) (xs @ [b])"
        using g2 by simp
      have oks: "\<forall>g\<in>set (groups @ [?cur]). group_ok rows g" using g3 ok by simp
      have succ: "successively (col_break rows) ((groups @ [?cur]) @ [[?c]])"
        using g4 br by (simp add: successively_append_iff)
      show ?thesis
        unfolding st
        by (rule trend_invI[where groups = "groups @ [?cur]"]) (use single cols cc oks succ in simp_all)
    qed
  next
    case False
    then have same: "Some (keyOf key b) = lastVal s" and short: "length ?cur < rows" by auto
    have st: "trendStep key rows s b = s\<lparr>currentColumn := ?cur @ [?c]\<rparr>"
      using False by (simp add: trendStep_def Let_def)
    have ne: "?cur \<noteq> []" using same e by auto
    have ok: "group_ok rows ?cur" and lv: "lastVal s = cell_type (hd ?cur)"
      using n ne by auto
    have ok': "group_ok rows (?cur @ [?c])"
    proof (rule group_okI)
      show "?cur @ [?c] \<noteq> []" by simp
      show "length (?cur @ [?c]) \<le> rows" using short by simp
      show "cell_type x \<noteq> None" if "x \<in> set (?cur @ [?c])" for x
        using that group_okD(3)[OF ok] by auto
      show "cell_type x = cell_type (hd (?cur @ [?c]))" if "x \<in> set (?cur @ [?c])" for x
      proof (cases "x \<in> set ?cur")
        case True
        then show ?thesis using group_okD(4)[OF ok True] ne by simp
      next
        case False
        then have "x = ?c" using that by simp
        then show ?thesis using same lv ne by simp
      qed
    qed
    have succ: "successively (col_break rows) (groups @ [?cur @ [?c]])"
    proof (cases "groups = []")
      case True
      then show ?thesis by simp
    next
      case False
      then show ?thesis
        using g4 ne by (simp add: successively_append_iff col_break_def)
    qed
    have cc: "concat groups @ ?cur @ [?c] = map (blockCell key) (xs @ [b])"
      using g2 by simp
    show ?thesis
      unfolding st
      by (rule trend_invI[where groups = groups]) (use ok' lv ne g1 cc g3 succ in simp_all)
  qed
qed

lemma trendForEach_inv:
  assumes "1 \<le> rows"
  shows "trend_inv key rows xs s \<Longrightarrow> trend_inv key rows (xs @ ys) (trendForEach key rows ys s)"
proof (induction ys arbitrary: xs s)
  case Nil
  then show ?case by simp
next
  case (Cons b ys)
  from Cons.IH[OF trendStep_inv[OF assms Cons.prems, of b]]
  show ?case by simp
qed

lemma trend_grid_groups:
  assumes "1 \<le> rows"
  shows "\<exists>groups.
     calculateTrendGrid blocks key rows =
       map (padded rows) groups @ replicate (24 - length groups) (emptyColumn rows) \<and>
     concat groups = map (blockCell key) (sortAscHeight blocks) \<and>
     (\<forall>g\<in>set groups. group_ok rows g) \<and>
     successively (col_break rows) groups"
proof (cases "blocks = []")
  case True
  have "calculateTrendGrid blocks key rows =
       map (padded rows) [] @ replicate (24 - length ([] :: GridCell list list)) (emptyColumn rows)"
    using True by (simp add: calculateTrendGrid_def)
  moreover have "concat [] = map (blockCell key) (sortAscHeight blocks)"
    using True by (simp add: sortAscHeight_def)
  ultimately show ?thesis by (intro exI[of _ "[]"]) simp
next
  case False
  let ?ch = "sortAscHeight blocks"
  let ?s = "trendForEach key rows ?ch \<lparr>columns = [], currentColumn = [], lastVal = None\<rparr>"
  have "length ?ch = length blocks" by (simp add: sortAscHeight_def)
  then have ch: "?ch \<noteq> []" using False by auto
  have inv: "trend_inv key rows ?ch ?s"
    using trendForEach_inv[OF assms trend_inv_init, of key ?ch] by simp
  then obtain groups where
    e: "currentColumn ?s = [] \<longrightarrow> ?ch = [] \<and> columns ?s = [] \<and> lastVal ?s = None"
    and n: "currentColumn ?s \<noteq> [] \<longrightarrow>
            lastVal ?s = cell_type (hd (currentColumn ?s)) \<and> group_ok rows (currentColumn ?s)"
    and g1: "columns ?s = map (padded rows) groups"
    and g2: "concat groups @ currentColumn ?s = map (blockCell key) ?ch"
    and g3: "\<forall>g\<in>set groups. group_ok rows g"
    and g4: "successively (col_break rows) (groups @ [currentColumn ?s])"
    unfolding trend_inv_def by blast
  have ne: "currentColumn ?s \<noteq> []" using e ch by blast
  have ok: "group_ok rows (currentColumn ?s)" using n ne by blast
  have cl: "closeColumn rows (columns ?s) (currentColumn ?s) =
            map (padded rows) (groups @ [currentColumn ?s])"
    using ne g1 by (simp add: closeColumn_def padColumn_eq)
  have grid: "calculateTrendGrid blocks key rows =
       map (padded rows) (groups @ [currentColumn ?s]) @
       replicate (24 - length (groups @ [currentColumn ?s])) (emptyColumn rows)"
    using False cl by (simp add: calculateTrendGrid_def Let_def padGrid_eq)
  have cc: "concat (groups @ [currentColumn ?s]) = map (blockCell key) ?ch" using g2 by simp
  have oks: "\<forall>g\<in>set (groups @ [currentColumn ?s]). group_ok rows g" using g3 ok by simp
  show ?thesis using grid cc oks g4 by blast
qed

lemma populated_padded:
  assumes "group_ok rows g"
  shows "populated (padded rows g) = g"
proof -
  have "filter (\<lambda>c. cell_type c \<noteq> None) g = g"
    using group_okD(3)[OF assms] by (simp add: filter_id_conv)
  then show ?thesis by (simp add: populated_def padded_def emptyCell_def)
qed

lemma populated_emptyColumn: "populated (emptyColumn rows) = []"
  by (simp add: populated_def emptyColumn_def emptyCell_def)

lemma length_padded:
  assumes "group_ok rows g"
  shows "length (padded rows g) = rows"
  using group_okD(2)[OF assms] by (simp add: padded_def)

text \<open>
  Claim C1. For every outcome sequence and every row count \<open>rows \<ge> 1\<close>, every column of the
  grid \<^verbatim>\<open>calculateTrendGrid\<close> returns has exactly \<open>rows\<close> cells; the grid has at least
  24 columns; the populated cells of a column all carry the same classification value and
  number at most \<open>rows\<close>; concatenating the populated cells column by column, top to bottom,
  gives the cells of the input sorted ascending by height; the grid consists of padded
  non-empty runs followed by empty columns, and a new column is started exactly when the
  classification differs from that of the column before or that column already holds
  \<open>rows\<close> cells; the empty input yields 24 empty columns of \<open>rows\<close> cells.
\<close>

theorem trend_grid_layout:
  assumes "1 \<le> rows"
  shows "(\<forall>col\<in>set (calculateTrendGrid blocks typeKey rows). length col = rows) \<and>
    24 \<le> length (calculateTrendGrid blocks typeKey rows) \<and>
    (\<forall>col\<in>set (calculateTrendGrid blocks typeKey rows).
       length (populated col) \<le> rows \<and>
       (\<forall>x\<in>set (populated col). \<forall>y\<in>set (populated col). cell_type x = cell_type y)) \<and>
    concat (map populated (calculateTrendGrid blocks typeKey rows)) =
      map (blockCell typeKey) (sortAscHeight blocks) \<and>
    (\<exists>groups.
       calculateTrendGrid blocks typeKey rows =
         map (\<lambda>g. g @ replicate (rows - length g) emptyCell) groups @
         replicate (24 - length groups) (replicate rows emptyCell) \<and>
       (\<forall>g\<in>set groups. g \<noteq> [] \<and> populated g = g) \<and>
       successively (\<lambda>g h. cell_type (hd h) \<noteq> cell_type (last g) \<or> length g = rows) groups) \<and>
    (blocks = [] \<longrightarrow>
       calculateTrendGrid blocks typeKey rows = replicate 24 (replicate rows emptyCell)) \<and>
    (sorted (map height (sortAscHeight blocks)) \<and>
     set (sortAscHeight blocks) = set blocks \<and>
     length (sortAscHeight blocks) = length blocks)"
proof -
  let ?G = "calculateTrendGrid blocks typeKey rows"
  from trend_grid_groups[OF assms, of blocks typeKey] obtain groups where
    G: "?G = map (padded rows) groups @ replicate (24 - length groups) (emptyColumn rows)"
    and cc: "concat groups = map (blockCell typeKey) (sortAscHeight blocks)"
    and oks: "\<forall>g\<in>set groups. group_ok rows g"
    and succ: "successively (col_break rows) groups"
    by blast
  have col_cases: "(\<exists>g\<in>set groups. col = padded rows g) \<or> col = emptyColumn rows"
    if "col \<in> set ?G" for col
    using that unfolding G by auto
  have c1: "\<forall>col\<in>set ?G. length col = rows"
  proof
    fix col assume "col \<in> set ?G"
    from col_cases[OF this] show "length col = rows"
      using oks length_padded by (auto simp: emptyColumn_def)
  qed
  have c2: "24 \<le> length ?G" unfolding G by simp
  have c3: "\<forall>col\<in>set ?G. length (populated col) \<le> rows \<and>
       (\<forall>x\<in>set (populated col). \<forall>y\<in>set (populated col). cell_type x = cell_type y)"
  proof
    fix col assume "col \<in> set ?G"
    from col_cases[OF this]
    show "length (populated col) \<le> rows \<and>
       (\<forall>x\<in>set (populated col). \<forall>y\<in>set (populated col). cell_type x = cell_type y)"
    proof
      assume "\<exists>g\<in>set groups. col = padded rows g"
      then obtain g where g: "g \<in> set groups" "col = padded rows g" by blast
      then have ok: "group_ok rows g" using oks by blast
      have p: "populated col = g" using g(2) populated_padded[OF ok] by simp
      show ?thesis unfolding p
        using group_okD(2)[OF ok] group_okD(4)[OF ok] by metis
    next
      assume "col = emptyColumn rows"
      then show ?thesis by (simp add: populated_emptyColumn)
    qed
  qed
  have pm: "map populated (map (padded rows) groups) = groups"
    using oks by (induction groups) (simp_all add: populated_padded)
  have pe: "concat (map populated (replicate k (emptyColumn rows))) = []" for k
    by (induction k) (simp_all add: populated_emptyColumn)
  have "concat (map populated ?G) =
          concat (map populated (map (padded rows) groups)) @
          concat (map populated (replicate (24 - length groups) (emptyColumn rows)))"
    unfolding G by (simp only: map_append concat_append)
  also have "\<dots> = concat groups @ []" by (simp only: pm pe)
  finally have c4: "concat (map populated ?G) = map (blockCell typeKey) (sortAscHeight blocks)"
    using cc by simp
  have G': "?G = map (\<lambda>g. g @ replicate (rows - length g) emptyCell) groups @
         replicate (24 - length groups) (replicate rows emptyCell)"
    unfolding G by (simp add: padded_def[abs_def] emptyColumn_def)
  have g5: "\<forall>g\<in>set groups. g \<noteq> [] \<and> populated g = g"
  proof
    fix g assume "g \<in> set groups"
    then have ok: "group_ok rows g" using oks by blast
    have "filter (\<lambda>c. cell_type c \<noteq> None) g = g"
      using group_okD(3)[OF ok] by (simp add: filter_id_conv)
    then show "g \<noteq> [] \<and> populated g = g"
      using group_okD(1)[OF ok] by (simp add: populated_def)
  qed
  have s5: "successively (\<lambda>g h. cell_type (hd h) \<noteq> cell_type (last g) \<or> length g = rows) groups"
    using succ by (simp add: col_break_def[abs_def])
  have c6: "blocks = [] \<longrightarrow> ?G = replicate 24 (replicate rows emptyCell)"
    by (simp add: calculateTrendGrid_def emptyColumn_def)
  have c7: "sorted (map height (sortAscHeight blocks)) \<and>
     set (sortAscHeight blocks) = set blocks \<and>
     length (sortAscHeight blocks) = length blocks"
    by (simp add: sortAscHeight_def)
  show ?thesis using c1 c2 c3 c4 G' g5 s5 c6 c7 by blast
qed

theorem trend_grid_layout_witness:
  "(1::nat) \<le> 2 \<and>
   hd (calculateTrendGrid sampleBlocks Key_type 2) \<in> set (calculateTrendGrid sampleBlocks Key_type 2) \<and>
   length (hd (calculateTrendGrid sampleBlocks Key_type 2)) = 2 \<and>
   length (populated (hd (calculateTrendGrid sampleBlocks Key_type 2))) \<le> 2 \<and>
   24 \<le> length (calculateTrendGrid sampleBlocks Key_type 2) \<and>
   concat (map populated (calculateTrendGrid sampleBlocks Key_type 2)) =
     map (blockCell Key_type) (sortAscHeight sampleBlocks) \<and>
   calculateTrendGrid [] Key_type 2 = replicate 24 (replicate 2 emptyCell)"
proof -
  have h: "(1::nat) \<le> 2" by simp
  let ?G = "calculateTrendGrid sampleBlocks Key_type 2"
  note t = trend_grid_layout [OF h, of sampleBlocks Key_type]
  note e = trend_grid_layout [OF h, of "[]" Key_type]
  have len: "24 \<le> length ?G" using t by blast
  then have "?G \<noteq> []" by auto
  then have m: "hd ?G \<in> set ?G" by simp
  have a: "length (hd ?G) = 2" using t m by blast
  have b: "length (populated (hd ?G)) \<le> 2" using t m by blast
  have c: "concat (map populated ?G) = map (blockCell Key_type) (sortAscHeight sampleBlocks)"
    using t by blast
  have d: "calculateTrendGrid [] Key_type 2 = replicate 24 (replicate 2 emptyCell)"
    using e by blast
  show ?thesis using h m a b len c d by blast
qed

section \<open>Bead grid\<close>








end
